theory Spec2Isabelle
  imports Main "HOL-Library.Word" "HOL-Library.Log_Nat" "HOL-Library.Sublist"
begin

section \<open>Strings and character classes\<close>

text \<open>
  A JavaScript string is a sequence of 16-bit code units; \<open>length\<close> counts code units and
  the regular expressions of the source (none has the \<open>u\<close> flag) work on code units.
  \<open>str\<close> turns an ASCII literal into such a string.
\<close>

type_synonym code_unit = "16 word"
type_synonym jsstring = "code_unit list"

definition cu :: "char \<Rightarrow> code_unit" where
  "cu c = of_nat (of_char c)"

definition str :: "string \<Rightarrow> jsstring" where
  "str s = map cu s"

text \<open>Line terminators: the characters that \<open>.\<close> does not match and after which \<open>^\<close>
  (before which \<open>$\<close>) matches under the \<open>m\<close> flag: LF, CR, LS, PS.\<close>

definition isLineTerminator :: "code_unit \<Rightarrow> bool" where
  "isLineTerminator c \<longleftrightarrow> c = 0x0A \<or> c = 0x0D \<or> c = 0x2028 \<or> c = 0x2029"

text \<open>The class \<open>\s\<close>, which is also what \<open>trim\<close> strips: white space and line terminators.\<close>

definition isWhiteSpace :: "code_unit \<Rightarrow> bool" where
  "isWhiteSpace c \<longleftrightarrow>
     c = 0x09 \<or> c = 0x0A \<or> c = 0x0B \<or> c = 0x0C \<or> c = 0x0D \<or> c = 0x20 \<or> c = 0xA0 \<or>
     c = 0x1680 \<or> (0x2000 \<le> c \<and> c \<le> 0x200A) \<or> c = 0x2028 \<or> c = 0x2029 \<or>
     c = 0x202F \<or> c = 0x205F \<or> c = 0x3000 \<or> c = 0xFEFF"

definition isDot :: "code_unit \<Rightarrow> bool" where
  "isDot c \<longleftrightarrow> \<not> isLineTerminator c"

definition isDigit :: "code_unit \<Rightarrow> bool" where
  "isDigit c \<longleftrightarrow> 0x30 \<le> c \<and> c \<le> 0x39"

definition isAny :: "code_unit \<Rightarrow> bool" where
  "isAny c \<longleftrightarrow> True"

definition isChar :: "char \<Rightarrow> code_unit \<Rightarrow> bool" where
  "isChar a c \<longleftrightarrow> c = cu a"

definition isNot :: "char \<Rightarrow> code_unit \<Rightarrow> bool" where
  "isNot a c \<longleftrightarrow> c \<noteq> cu a"

definition isBullet :: "code_unit \<Rightarrow> bool" where
  "isBullet c \<longleftrightarrow> c = cu CHR ''-'' \<or> c = cu CHR ''*'' \<or> c = cu CHR ''+''"

section \<open>Backtracking matchers\<close>

text \<open>
  A pattern is matched the way the ECMAScript specification describes it: every piece of a
  pattern takes the continuation that matches the rest of the pattern, and a quantifier
  tries its choices in priority order, giving up a choice when the continuation fails.
  A continuation gets the input that is left and returns the result of the whole match,
  or \<open>None\<close>. A quantifier hands the text it matched to its continuation, so that a
  capture group is the bound variable of a \<open>\<lambda>\<close>.
\<close>

type_synonym 'a cont = "jsstring \<Rightarrow> 'a option"

text \<open>A literal piece of pattern.\<close>

definition lit :: "jsstring \<Rightarrow> 'a cont \<Rightarrow> 'a cont" where
  "lit d k s = (if take (length d) s = d then k (drop (length d) s) else None)"

text \<open>One character of a class.\<close>

definition one :: "(code_unit \<Rightarrow> bool) \<Rightarrow> (jsstring \<Rightarrow> 'a cont) \<Rightarrow> 'a cont" where
  "one p k s = (case s of [] \<Rightarrow> None | c # cs \<Rightarrow> if p c then k [c] cs else None)"

text \<open>\<open>p*\<close>: as many characters of the class as possible first, then fewer.\<close>

fun greedy :: "(code_unit \<Rightarrow> bool) \<Rightarrow> (jsstring \<Rightarrow> 'a cont) \<Rightarrow> 'a cont" where
  "greedy p k [] = k [] []"
| "greedy p k (c # cs) =
     (if p c then
        (case greedy p (\<lambda>m. k (c # m)) cs of
           Some r \<Rightarrow> Some r
         | None \<Rightarrow> k [] (c # cs))
      else k [] (c # cs))"

text \<open>\<open>p*?\<close>: as few characters of the class as possible first, then more.\<close>

fun lazy :: "(code_unit \<Rightarrow> bool) \<Rightarrow> (jsstring \<Rightarrow> 'a cont) \<Rightarrow> 'a cont" where
  "lazy p k [] = k [] []"
| "lazy p k (c # cs) =
     (case k [] (c # cs) of
        Some r \<Rightarrow> Some r
      | None \<Rightarrow> if p c then lazy p (\<lambda>m. k (c # m)) cs else None)"

text \<open>\<open>p+\<close> and \<open>p?\<close> (both greedy).\<close>

definition plus1 :: "(code_unit \<Rightarrow> bool) \<Rightarrow> (jsstring \<Rightarrow> 'a cont) \<Rightarrow> 'a cont" where
  "plus1 p k = one p (\<lambda>c. greedy p (\<lambda>m. k (c @ m)))"

definition opt :: "(code_unit \<Rightarrow> bool) \<Rightarrow> (jsstring \<Rightarrow> 'a cont) \<Rightarrow> 'a cont" where
  "opt p k s =
     (case s of
        [] \<Rightarrow> k [] []
      | c # cs \<Rightarrow>
          if p c then (case k [c] cs of Some r \<Rightarrow> Some r | None \<Rightarrow> k [] s)
          else k [] s)"

text \<open>\<open>a|b\<close>: the left alternative with the rest of the pattern, then the right one.\<close>

definition alt :: "'a cont \<Rightarrow> 'a cont \<Rightarrow> 'a cont" where
  "alt a b s = (case a s of Some r \<Rightarrow> Some r | None \<Rightarrow> b s)"

text \<open>The anchors under the \<open>m\<close> flag. \<open>^\<close> looks at the character before the position
  (\<open>None\<close> at the start of the input), \<open>$\<close> at the character after it.\<close>

definition bol :: "code_unit option \<Rightarrow> bool" where
  "bol prev = (case prev of None \<Rightarrow> True | Some c \<Rightarrow> isLineTerminator c)"

definition eol :: "'a cont \<Rightarrow> 'a cont" where
  "eol k s = (case s of [] \<Rightarrow> k s | c # cs \<Rightarrow> if isLineTerminator c then k s else None)"

text \<open>The end of a pattern: the match succeeds with this replacement text.\<close>

definition done_with :: "jsstring \<Rightarrow> (jsstring \<times> jsstring) cont" where
  "done_with rep s = Some (rep, s)"

section \<open>\<open>String.prototype.replace\<close>\<close>

text \<open>
  A matcher is a pattern together with its replacement: given the character before the
  position and the input from the position on, it returns the replacement text and the
  input after the match.
\<close>

type_synonym matcher = "code_unit option \<Rightarrow> jsstring \<Rightarrow> (jsstring \<times> jsstring) option"

text \<open>
  \<open>replace\<close> with a global pattern: the pattern is tried at every position from the left;
  a match is replaced and the search goes on after it, a character where nothing matches
  is copied. After an empty match the search moves one character on, copying it.
\<close>

function replaceAll :: "matcher \<Rightarrow> code_unit option \<Rightarrow> jsstring \<Rightarrow> jsstring" where
  "replaceAll m prev s =
     (case m prev s of
        Some (rep, rest) \<Rightarrow>
          if length rest < length s then
            rep @ replaceAll m (Some (last (take (length s - length rest) s))) rest
          else (case s of [] \<Rightarrow> rep | c # cs \<Rightarrow> rep @ c # replaceAll m (Some c) cs)
      | None \<Rightarrow> (case s of [] \<Rightarrow> [] | c # cs \<Rightarrow> c # replaceAll m (Some c) cs))"
  by pat_completeness auto
termination
  by (relation "measure (\<lambda>(m, prev, s). length s)") auto

declare replaceAll.simps [simp del]

text \<open>\<open>replace\<close> with a pattern that is not global: only the leftmost match is replaced.\<close>

fun replaceFirst :: "matcher \<Rightarrow> code_unit option \<Rightarrow> jsstring \<Rightarrow> jsstring" where
  "replaceFirst m prev [] = (case m prev [] of Some (rep, rest) \<Rightarrow> rep @ rest | None \<Rightarrow> [])"
| "replaceFirst m prev (c # cs) =
     (case m prev (c # cs) of
        Some (rep, rest) \<Rightarrow> rep @ rest
      | None \<Rightarrow> c # replaceFirst m (Some c) cs)"

definition trim :: "jsstring \<Rightarrow> jsstring" where
  "trim s = rev (dropWhile isWhiteSpace (rev (dropWhile isWhiteSpace s)))"

section \<open>The patterns of \<open>markdownToHuman\<close>\<close>

text \<open>\<^verbatim>\<open>/^\s*#+\s*/gm\<close> replaced by the empty string.\<close>

definition m_heading :: matcher where
  "m_heading prev =
     (if bol prev then
        greedy isWhiteSpace (\<lambda>_. plus1 (isChar CHR ''#'') (\<lambda>_. greedy isWhiteSpace (\<lambda>_. done_with [])))
      else (\<lambda>s. None))"

text \<open>\<^verbatim>\<open>/(\*\*|__)(.*?)\1/g\<close> replaced by \<^verbatim>\<open>$2\<close>. The back reference \<^verbatim>\<open>\1\<close> is the
  delimiter that the alternative matched.\<close>

definition emphasis :: "jsstring \<Rightarrow> (jsstring \<times> jsstring) cont" where
  "emphasis d = lit d (lazy isDot (\<lambda>inner. lit d (done_with inner)))"

definition m_strong :: matcher where
  "m_strong prev = alt (emphasis (str ''**'')) (emphasis (str ''__''))"

text \<open>\<^verbatim>\<open>/(\*|_)(.*?)\1/g\<close> replaced by \<^verbatim>\<open>$2\<close>.\<close>

definition m_weak :: matcher where
  "m_weak prev = alt (emphasis (str ''*'')) (emphasis (str ''_''))"

text \<open>\<^verbatim>\<open>/\[(.*?)\]\((.*?)\)/g\<close> replaced by \<^verbatim>\<open>$1 ($2)\<close>.\<close>

definition m_link :: matcher where
  "m_link prev =
     lit (str ''['') (lazy isDot (\<lambda>label.
       lit (str '']('') (lazy isDot (\<lambda>target.
         lit (str '')'') (done_with (label @ str '' ('' @ target @ str '')''))))))"

text \<open>\<^verbatim>\<open>/!\[(.*?)\]\(.*?\)/g\<close> replaced by \<^verbatim>\<open>$1\<close>.\<close>

definition m_image :: matcher where
  "m_image prev =
     lit (str ''!['') (lazy isDot (\<lambda>alt_text.
       lit (str '']('') (lazy isDot (\<lambda>_.
         lit (str '')'') (done_with alt_text)))))"

text \<open>\<^verbatim>\<open>/`([^`]*)`/g\<close> replaced by \<^verbatim>\<open>$1\<close>.\<close>

definition m_inline_code :: matcher where
  "m_inline_code prev =
     lit (str ''`'') (greedy (isNot CHR ''`'') (\<lambda>code. lit (str ''`'') (done_with code)))"

text \<open>\<^verbatim>\<open>/```[\s\S]*?```/g\<close>, replaced by what the callback returns for the matched text:
  \<^verbatim>\<open>match.replace(/```.*\n?/, '').replace(/```/, '')\<close>.\<close>

definition m_fence_open :: matcher where
  "m_fence_open prev =
     lit (str ''```'') (greedy isDot (\<lambda>_. opt (isChar CHR 0x0A) (\<lambda>_. done_with [])))"

definition m_fence_close :: matcher where
  "m_fence_close prev = lit (str ''```'') (done_with [])"

definition unfence :: "jsstring \<Rightarrow> jsstring" where
  "unfence match = replaceFirst m_fence_close None (replaceFirst m_fence_open None match)"

definition m_fenced :: matcher where
  "m_fenced prev =
     lit (str ''```'') (lazy isAny (\<lambda>body.
       lit (str ''```'') (\<lambda>rest. Some (unfence (str ''```'' @ body @ str ''```''), rest))))"

text \<open>\<^verbatim>\<open>/^\s*>\s?/gm\<close> replaced by the empty string.\<close>

definition m_blockquote :: matcher where
  "m_blockquote prev =
     (if bol prev then
        greedy isWhiteSpace (\<lambda>_. lit (str ''>'') (opt isWhiteSpace (\<lambda>_. done_with [])))
      else (\<lambda>s. None))"

text \<open>\<^verbatim>\<open>/\|\s*/g\<close> replaced by one space, then \<^verbatim>\<open>/ {2,}/g\<close> replaced by one space.\<close>

definition m_pipe :: matcher where
  "m_pipe prev = lit (str ''|'') (greedy isWhiteSpace (\<lambda>_. done_with (str '' '')))"

definition m_spaces :: matcher where
  "m_spaces prev = lit (str ''  '') (greedy (isChar CHR '' '') (\<lambda>_. done_with (str '' '')))"

text \<open>\<^verbatim>\<open>/^\s*(-{3,}|\*{3,}|_{3,})\s*$/gm\<close> replaced by the empty string.\<close>

definition rule_of :: "char \<Rightarrow> (jsstring \<times> jsstring) cont" where
  "rule_of a =
     lit (str [a, a, a]) (greedy (isChar a) (\<lambda>_. greedy isWhiteSpace (\<lambda>_. eol (done_with []))))"

definition m_hr :: matcher where
  "m_hr prev =
     (if bol prev then
        greedy isWhiteSpace (\<lambda>_.
          alt (rule_of CHR ''-'') (alt (rule_of CHR ''*'') (rule_of CHR ''_'')))
      else (\<lambda>s. None))"

text \<open>\<^verbatim>\<open>/\\(.)/g\<close> replaced by \<^verbatim>\<open>$1\<close>.\<close>

definition m_escape :: matcher where
  "m_escape prev = lit (str [CHR 0x5C]) (one isDot (\<lambda>c. done_with c))"

text \<open>\<^verbatim>\<open>/^\s*[-*+]\s+/gm\<close> and \<^verbatim>\<open>/^\s*\d+\.\s+/gm\<close>, both replaced by the empty string.\<close>

definition m_unordered :: matcher where
  "m_unordered prev =
     (if bol prev then
        greedy isWhiteSpace (\<lambda>_. one isBullet (\<lambda>_. plus1 isWhiteSpace (\<lambda>_. done_with [])))
      else (\<lambda>s. None))"

definition m_ordered :: matcher where
  "m_ordered prev =
     (if bol prev then
        greedy isWhiteSpace (\<lambda>_.
          plus1 isDigit (\<lambda>_. lit (str ''.'') (plus1 isWhiteSpace (\<lambda>_. done_with []))))
      else (\<lambda>s. None))"

text \<open>\<^verbatim>\<open>/\n{3,}/g\<close> replaced by two newlines.\<close>

definition m_newlines :: matcher where
  "m_newlines prev =
     lit (str [CHR 0x0A, CHR 0x0A, CHR 0x0A])
       (greedy (isChar CHR 0x0A) (\<lambda>_. done_with (str [CHR 0x0A, CHR 0x0A])))"

section \<open>\<open>markdownToHuman\<close>\<close>

text \<open>
  The function has a parameter \<open>text\<close>, which it only reads, and a local variable
  \<open>cleaned\<close>, which every statement of the body replaces by the result of one \<open>replace\<close>
  on its current value. Each pattern is a fresh object whose search starts at the
  beginning of the string.
\<close>

record env =
  text_var :: jsstring
  cleaned_var :: jsstring

definition declare_cleaned :: "env \<Rightarrow> env" where
  "declare_cleaned \<sigma> = \<sigma>\<lparr>cleaned_var := text_var \<sigma>\<rparr>"

definition cleaned_replace :: "matcher \<Rightarrow> env \<Rightarrow> env" where
  "cleaned_replace m \<sigma> = \<sigma>\<lparr>cleaned_var := replaceAll m None (cleaned_var \<sigma>)\<rparr>"

fun exec :: "(env \<Rightarrow> env) list \<Rightarrow> env \<Rightarrow> env" where
  "exec [] \<sigma> = \<sigma>"
| "exec (stmt # stmts) \<sigma> = exec stmts (stmt \<sigma>)"

definition markdownToHuman_body :: "(env \<Rightarrow> env) list" where
  "markdownToHuman_body =
     [declare_cleaned,
      cleaned_replace m_heading,
      cleaned_replace m_strong,
      cleaned_replace m_weak,
      cleaned_replace m_link,
      cleaned_replace m_image,
      cleaned_replace m_inline_code,
      cleaned_replace m_fenced,
      cleaned_replace m_blockquote,
      cleaned_replace m_pipe,
      cleaned_replace m_spaces,
      cleaned_replace m_hr,
      cleaned_replace m_escape,
      cleaned_replace m_unordered,
      cleaned_replace m_ordered,
      cleaned_replace m_newlines]"

text \<open>A call returns a value and leaves an environment.\<close>

definition markdownToHuman_call :: "env \<Rightarrow> jsstring \<times> env" where
  "markdownToHuman_call \<sigma> =
     (if text_var \<sigma> = [] then ([], \<sigma>)
      else (let \<sigma>' = exec markdownToHuman_body \<sigma> in (trim (cleaned_var \<sigma>'), \<sigma>')))"

definition markdownToHuman :: "jsstring \<Rightarrow> jsstring" where
  "markdownToHuman s = fst (markdownToHuman_call \<lparr>text_var = s, cleaned_var = []\<rparr>)"



section \<open>The call, step by step\<close>

text \<open>
  A pattern written \<^verbatim>\<open>/.../g\<close> in the body is a new \<open>RegExp\<close> object each time the
  body runs. The object has one piece of state, the property \<open>lastIndex\<close>, which a
  search reads and writes. The heap holds \<open>lastIndex\<close> of every object made so far; an
  object is its position in the heap.
\<close>

type_synonym heap = "nat list"

definition new_RegExp :: "heap \<Rightarrow> nat \<times> heap" where
  "new_RegExp h = (length h, h @ [0])"

text \<open>A pattern tried at index \<open>i\<close> of \<open>S\<close>: the replacement and the index where the match
  ends.\<close>

definition prev_at :: "jsstring \<Rightarrow> nat \<Rightarrow> code_unit option" where
  "prev_at S i = (if i = 0 then None else Some (S ! (i - 1)))"

definition match_at :: "matcher \<Rightarrow> jsstring \<Rightarrow> nat \<Rightarrow> (jsstring \<times> nat) option" where
  "match_at m S i =
     (case m (prev_at S i) (drop i S) of
        None \<Rightarrow> None
      | Some (rep, rest) \<Rightarrow> Some (rep, length S - length rest))"

text \<open>
  The loop of \<open>replace\<close> with a global pattern, on the object \<open>r\<close>. A search starts at
  \<open>lastIndex\<close> and moves it on by one where the pattern does not match; a search past the
  end of the string fails, sets \<open>lastIndex\<close> to 0 and ends the loop. A match sets
  \<open>lastIndex\<close> to its end, and the loop moves it on by one more when the match is empty.
  The text between the matches is copied from \<open>nextSourcePosition\<close>. Nothing bounds the
  number of turns but the progress of \<open>lastIndex\<close>, so the loop is a partial function:
  \<open>None\<close> is a search that does not end.
\<close>

partial_function (option) replace_loop ::
  "matcher \<Rightarrow> jsstring \<Rightarrow> nat \<Rightarrow> jsstring \<Rightarrow> nat \<Rightarrow> heap \<Rightarrow> (jsstring \<times> heap) option" where
  "replace_loop m S r accumulated nextSourcePosition h =
     (let lastIndex = h ! r in
      if length S < lastIndex then
        Some (accumulated @ drop nextSourcePosition S, h[r := 0])
      else
        (case match_at m S lastIndex of
           None \<Rightarrow> replace_loop m S r accumulated nextSourcePosition (h[r := lastIndex + 1])
         | Some (rep, e) \<Rightarrow>
             (let accumulated' =
                    accumulated @
                    take (lastIndex - nextSourcePosition) (drop nextSourcePosition S) @ rep
              in if lastIndex < e then replace_loop m S r accumulated' e (h[r := e])
                 else replace_loop m S r accumulated' lastIndex (h[r := lastIndex + 1]))))"

declare replace_loop.simps [code]

text \<open>\<^verbatim>\<open>S.replace(/.../g, ...)\<close>: the pattern is made, \<open>replace\<close> sets its \<open>lastIndex\<close> to 0
  and runs the loop.\<close>

definition String_replace :: "matcher \<Rightarrow> jsstring \<Rightarrow> heap \<Rightarrow> (jsstring \<times> heap) option" where
  "String_replace m S h = (let (r, h1) = new_RegExp h in replace_loop m S r [] 0 (h1[r := 0]))"

text \<open>The statements \<^verbatim>\<open>cleaned = cleaned.replace(...)\<close> of the body, in their order.\<close>

fun run_statements :: "matcher list \<Rightarrow> jsstring \<Rightarrow> heap \<Rightarrow> (jsstring \<times> heap) option" where
  "run_statements [] cleaned h = Some (cleaned, h)"
| "run_statements (m # ms) cleaned h =
     (case String_replace m cleaned h of
        None \<Rightarrow> None
      | Some (cleaned', h') \<Rightarrow> run_statements ms cleaned' h')"

definition markdownToHuman_patterns :: "matcher list" where
  "markdownToHuman_patterns =
     [m_heading, m_strong, m_weak, m_link, m_image, m_inline_code, m_fenced, m_blockquote,
      m_pipe, m_spaces, m_hr, m_escape, m_unordered, m_ordered, m_newlines]"

text \<open>A call of \<open>markdownToHuman\<close> on a heap: the value it returns and the heap it leaves,
  or \<open>None\<close> when it does not return.\<close>

definition markdownToHuman_run :: "heap \<Rightarrow> jsstring \<Rightarrow> (jsstring \<times> heap) option" where
  "markdownToHuman_run h text =
     (if text = [] then Some ([], h)
      else (case run_statements markdownToHuman_patterns text h of
              None \<Rightarrow> None
            | Some (cleaned, h') \<Rightarrow> Some (trim cleaned, h')))"

text \<open>A pattern that leaves, after a match, an end piece of the input it was given.\<close>

definition suffix_matcher :: "matcher \<Rightarrow> bool" where
  "suffix_matcher m \<longleftrightarrow> (\<forall>prev s rep rest. m prev s = Some (rep, rest) \<longrightarrow> suffix rest s)"

section \<open>\<open>getStats\<close>\<close>

text \<open>
  A JavaScript number is an IEEE 754 double. A finite double is modelled as the rational
  number it denotes (the two zeros are one value), and an arithmetic operation as the
  exact operation followed by rounding to the nearest double, ties to the even
  significand. The lengths of strings and the values computed from them here are far from
  the largest and the smallest doubles, so \<open>fl\<close> rounds to 53 significant bits and
  leaves the exponent unbounded.
\<close>

definition pow2 :: "int \<Rightarrow> rat" where
  "pow2 e = (if 0 \<le> e then 2 ^ nat e else 1 / 2 ^ nat (- e))"

text \<open>The integer nearest to \<open>x\<close>, the even one of the two when \<open>x\<close> is half way.\<close>

definition round_ties_even :: "rat \<Rightarrow> int" where
  "round_ties_even x =
     (let f = \<lfloor>x\<rfloor>; d = x - of_int f
      in if d < 1 / 2 then f else if 1 / 2 < d then f + 1 else if even f then f else f + 1)"

text \<open>For \<open>0 < x\<close>, the exponent \<open>e\<close> with \<open>2 ^ e \<le> x < 2 ^ (e + 1)\<close>.\<close>

definition exponent_of :: "rat \<Rightarrow> int" where
  "exponent_of x =
     (let (p, q) = quotient_of x; n = bitlen p - bitlen q
      in if pow2 n \<le> x then n else n - 1)"

definition fl :: "rat \<Rightarrow> rat" where
  "fl x =
     (if x = 0 then 0
      else (let e = exponent_of \<bar>x\<bar> - 52
            in of_int (round_ties_even (x / pow2 e)) * pow2 e))"

definition fdiv :: "rat \<Rightarrow> rat \<Rightarrow> rat" where
  "fdiv x y = fl (x / y)"

definition fmul :: "rat \<Rightarrow> rat \<Rightarrow> rat" where
  "fmul x y = fl (x * y)"

text \<open>\<open>Math.round\<close>: the nearest integer, the larger one of the two when \<open>x\<close> is half way.\<close>

definition Math_round :: "rat \<Rightarrow> int" where
  "Math_round x = \<lfloor>x + 1 / 2\<rfloor>"

definition reduction :: "nat \<Rightarrow> nat \<Rightarrow> rat" where
  "reduction originalChars cleanedChars =
     (if 0 < originalChars then
        fmul (fdiv (of_int (int originalChars - int cleanedChars)) (of_nat originalChars)) 100
      else 0)"

record stats =
  originalChars :: nat
  cleanedChars :: nat
  reductionPercent :: rat

definition getStats :: "jsstring \<Rightarrow> jsstring \<Rightarrow> stats" where
  "getStats original cleaned =
     \<lparr>originalChars = length original,
      cleanedChars = length cleaned,
      reductionPercent =
        fdiv (of_int (Math_round (fmul (reduction (length original) (length cleaned)) 10))) 10\<rparr>"

text \<open>
  The two rounding modes that the specification names, to one decimal place, on the exact
  percentage.
\<close>

definition round_half_away :: "rat \<Rightarrow> int" where
  "round_half_away x = (if 0 \<le> x then \<lfloor>x + 1 / 2\<rfloor> else - \<lfloor>- x + 1 / 2\<rfloor>)"

definition exact_percent :: "nat \<Rightarrow> nat \<Rightarrow> rat" where
  "exact_percent o_len c_len = of_int (int o_len - int c_len) / of_nat o_len * 100"

definition percent_half_away :: "nat \<Rightarrow> nat \<Rightarrow> rat" where
  "percent_half_away o_len c_len = of_int (round_half_away (exact_percent o_len c_len * 10)) / 10"

definition percent_half_even :: "nat \<Rightarrow> nat \<Rightarrow> rat" where
  "percent_half_even o_len c_len = of_int (round_ties_even (exact_percent o_len c_len * 10)) / 10"

text \<open>A pattern keeps white space when, on an input of white space only, whatever it
  matches is replaced by white space and leaves white space.\<close>

definition whitespace_keeping :: "matcher \<Rightarrow> bool" where
  "whitespace_keeping m \<longleftrightarrow>
     (\<forall>prev t rep rest. list_all isWhiteSpace t \<longrightarrow> m prev t = Some (rep, rest) \<longrightarrow>
        list_all isWhiteSpace rep \<and> list_all isWhiteSpace rest)"

section \<open>How the matchers split their input\<close>

lemma litE:
  assumes "lit d k s = Some r"
  obtains s' where "s = d @ s'" "k s' = Some r"
  using assms unfolding lit_def
  by (metis append_take_drop_id option.distinct(1))

lemma oneE:
  assumes "one p k s = Some r"
  obtains c s' where "s = c # s'" "p c" "k [c] s' = Some r"
  using assms unfolding one_def by (auto split: list.splits if_splits)

lemma greedy_decomp:
  "greedy p k s = Some r \<Longrightarrow> \<exists>m s'. s = m @ s' \<and> list_all p m \<and> k m s' = Some r"
proof (induction s arbitrary: k)
  case Nil
  then show ?case by auto
next
  case (Cons c cs)
  show ?case
  proof (cases "p c \<and> greedy p (\<lambda>m. k (c # m)) cs \<noteq> None")
    case True
    then obtain r' where r': "greedy p (\<lambda>m. k (c # m)) cs = Some r'" by auto
    with True Cons.prems have "r' = r" by simp
    with r' have "greedy p (\<lambda>m. k (c # m)) cs = Some r" by simp
    from Cons.IH[OF this] obtain m s' where "cs = m @ s'" "list_all p m" "k (c # m) s' = Some r"
      by auto
    with True show ?thesis
      by (intro exI[of _ "c # m"] exI[of _ s']) simp
  next
    case False
    with Cons.prems have "k [] (c # cs) = Some r" by (auto split: if_splits option.splits)
    then show ?thesis by (intro exI[of _ "[]"] exI[of _ "c # cs"]) simp
  qed
qed

lemma lazy_decomp:
  "lazy p k s = Some r \<Longrightarrow> \<exists>m s'. s = m @ s' \<and> list_all p m \<and> k m s' = Some r"
proof (induction s arbitrary: k)
  case Nil
  then show ?case by auto
next
  case (Cons c cs)
  show ?case
  proof (cases "k [] (c # cs)")
    case (Some r')
    with Cons.prems have "k [] (c # cs) = Some r" by simp
    then show ?thesis by (intro exI[of _ "[]"] exI[of _ "c # cs"]) simp
  next
    case None
    with Cons.prems have pc: "p c" and r': "lazy p (\<lambda>m. k (c # m)) cs = Some r"
      by (auto split: if_splits)
    from Cons.IH[OF r'] obtain m s' where "cs = m @ s'" "list_all p m" "k (c # m) s' = Some r"
      by auto
    with pc show ?thesis
      by (intro exI[of _ "c # m"] exI[of _ s']) simp
  qed
qed

lemma greedyE:
  assumes "greedy p k s = Some r"
  obtains m s' where "s = m @ s'" "list_all p m" "k m s' = Some r"
  using greedy_decomp[OF assms] by blast

lemma lazyE:
  assumes "lazy p k s = Some r"
  obtains m s' where "s = m @ s'" "list_all p m" "k m s' = Some r"
  using lazy_decomp[OF assms] by blast

lemma optE:
  assumes "opt p k s = Some r"
  obtains m s' where "s = m @ s'" "list_all p m" "k m s' = Some r"
proof (cases s)
  case Nil
  with assms have "k [] [] = Some r" by (simp add: opt_def)
  with Nil that[of "[]" "[]"] show ?thesis by simp
next
  case (Cons c cs)
  show ?thesis
  proof (cases "p c \<and> k [c] cs \<noteq> None")
    case True
    with assms Cons have "k [c] cs = Some r" by (auto simp: opt_def)
    with True Cons that[of "[c]" cs] show ?thesis by simp
  next
    case False
    with assms Cons have "k [] s = Some r" by (auto simp: opt_def split: if_splits option.splits)
    with that[of "[]" s] show ?thesis by simp
  qed
qed

lemma plus1E:
  assumes "plus1 p k s = Some r"
  obtains c m s' where "s = c # m @ s'" "p c" "list_all p m" "k (c # m) s' = Some r"
proof -
  from assms obtain c s1 where s: "s = c # s1" and pc: "p c"
    and g: "greedy p (\<lambda>m. k ([c] @ m)) s1 = Some r"
    unfolding plus1_def by (elim oneE)
  from g obtain m s' where "s1 = m @ s'" "list_all p m" "k ([c] @ m) s' = Some r"
    by (elim greedyE)
  with s pc that[of c m s'] show ?thesis by simp
qed

lemma altE:
  assumes "alt a b s = Some r"
  obtains "a s = Some r" | "b s = Some r"
  using assms unfolding alt_def by (auto split: option.splits)

lemma eolE:
  assumes "eol k s = Some r"
  obtains "k s = Some r"
  using assms unfolding eol_def by (auto split: list.splits if_splits)

lemma done_with_eq [simp]: "done_with rep s = Some r \<longleftrightarrow> r = (rep, s)"
  by (auto simp: done_with_def)

lemma str_simps [simp]: "str [] = []" "str (a # as) = cu a # str as"
  by (simp_all add: str_def)

lemma ws_chars [simp]:
  "\<not> isWhiteSpace (cu CHR ''#'')" "\<not> isWhiteSpace (cu CHR ''*'')" "\<not> isWhiteSpace (cu CHR ''_'')"
  "\<not> isWhiteSpace (cu CHR ''['')" "\<not> isWhiteSpace (cu CHR ''!'')" "\<not> isWhiteSpace (cu CHR ''`'')"
  "\<not> isWhiteSpace (cu CHR ''>'')" "\<not> isWhiteSpace (cu CHR ''|'')" "\<not> isWhiteSpace (cu CHR ''-'')"
  "\<not> isWhiteSpace (cu CHR ''+'')" "\<not> isWhiteSpace (cu (CHR 0x5C))"
  "isWhiteSpace (cu CHR '' '')" "isWhiteSpace (cu (CHR 0x0A))" "isWhiteSpace (cu (CHR 0x09))"
  by (simp_all add: isWhiteSpace_def cu_def)

lemma ws_not_digit: "isWhiteSpace c \<Longrightarrow> \<not> isDigit c"
  unfolding isWhiteSpace_def isDigit_def
  using order_trans[of "0x2000 :: 16 word" c "0x39"] by auto

section \<open>Unfolding \<open>replaceAll\<close>\<close>

lemma replaceAll_None_Nil: "m prev [] = None \<Longrightarrow> replaceAll m prev [] = []"
  by (subst replaceAll.simps) simp

lemma replaceAll_None_Cons:
  "m prev (c # cs) = None \<Longrightarrow> replaceAll m prev (c # cs) = c # replaceAll m (Some c) cs"
  by (subst replaceAll.simps) simp

lemma replaceAll_Some_shorter:
  "m prev s = Some (rep, rest) \<Longrightarrow> length rest < length s \<Longrightarrow>
   replaceAll m prev s = rep @ replaceAll m (Some (last (take (length s - length rest) s))) rest"
  by (subst replaceAll.simps) simp

lemma replaceAll_Some_Nil:
  "m prev [] = Some (rep, rest) \<Longrightarrow> replaceAll m prev [] = rep"
  by (subst replaceAll.simps) simp

lemma replaceAll_Some_empty:
  "m prev (c # cs) = Some (rep, rest) \<Longrightarrow> \<not> length rest < length (c # cs) \<Longrightarrow>
   replaceAll m prev (c # cs) = rep @ c # replaceAll m (Some c) cs"
  by (subst replaceAll.simps) simp

lemma replaceAll_preserves:
  assumes "\<And>prev t rep rest. list_all P t \<Longrightarrow> m prev t = Some (rep, rest) \<Longrightarrow>
                 list_all P rep \<and> list_all P rest"
    and "list_all P s"
  shows "list_all P (replaceAll m prev s)"
  using assms
proof (induction m prev s rule: replaceAll.induct)
  case (1 m prev s)
  note mP = "1.prems"(1)
  show ?case
  proof (cases "m prev s")
    case None
    show ?thesis
    proof (cases s)
      case Nil
      with None show ?thesis by (simp add: replaceAll_None_Nil)
    next
      case (Cons c cs)
      with "1.prems"(2) have "list_all P cs" "P c" by simp_all
      with "1.IH"(1)[OF None Cons mP] None Cons show ?thesis
        by (simp add: replaceAll_None_Cons)
    qed
  next
    case (Some x)
    then obtain rep rest where x: "m prev s = Some (rep, rest)" by (cases x) auto
    from mP[OF "1.prems"(2) x] have rep: "list_all P rep" and rest: "list_all P rest" by simp_all
    show ?thesis
    proof (cases "length rest < length s")
      case True
      from "1.IH"(2)[OF x refl True mP rest] rep show ?thesis
        by (simp add: replaceAll_Some_shorter[where m=m and prev=prev and s=s, OF x True])
    next
      case False
      show ?thesis
      proof (cases s)
        case Nil
        with x rep show ?thesis by (simp add: replaceAll_Some_Nil)
      next
        case (Cons c cs)
        with "1.prems"(2) have "list_all P cs" "P c" by simp_all
        with "1.IH"(3)[OF x refl False Cons mP] x False Cons rep show ?thesis
          by (simp add: replaceAll_Some_empty)
      qed
    qed
  qed
qed

lemma trim_ws: "list_all isWhiteSpace s \<Longrightarrow> trim s = []"
proof -
  assume "list_all isWhiteSpace s"
  then have d: "dropWhile isWhiteSpace s = []" by (induction s) simp_all
  show ?thesis unfolding trim_def d by simp
qed

section \<open>Input of white space only\<close>

lemma ws_heading: "list_all isWhiteSpace s \<Longrightarrow> m_heading prev s = Some r \<Longrightarrow> False"
  by (auto simp: m_heading_def isChar_def split: if_splits elim!: greedyE plus1E)

lemma ws_emphasis: "emphasis (cu a # d) s = Some r \<Longrightarrow> list_all isWhiteSpace s \<Longrightarrow> \<not> isWhiteSpace (cu a) \<Longrightarrow> False"
  by (auto simp: emphasis_def elim!: litE)

lemma ws_strong: "list_all isWhiteSpace s \<Longrightarrow> m_strong prev s = Some r \<Longrightarrow> False"
  by (auto simp: m_strong_def elim!: altE dest: ws_emphasis)

lemma ws_weak: "list_all isWhiteSpace s \<Longrightarrow> m_weak prev s = Some r \<Longrightarrow> False"
  by (auto simp: m_weak_def elim!: altE dest: ws_emphasis)

lemma ws_link: "list_all isWhiteSpace s \<Longrightarrow> m_link prev s = Some r \<Longrightarrow> False"
  by (auto simp: m_link_def elim!: litE)

lemma ws_image: "list_all isWhiteSpace s \<Longrightarrow> m_image prev s = Some r \<Longrightarrow> False"
  by (auto simp: m_image_def elim!: litE)

lemma ws_inline_code: "list_all isWhiteSpace s \<Longrightarrow> m_inline_code prev s = Some r \<Longrightarrow> False"
  by (auto simp: m_inline_code_def elim!: litE)

lemma ws_fenced: "list_all isWhiteSpace s \<Longrightarrow> m_fenced prev s = Some r \<Longrightarrow> False"
  by (auto simp: m_fenced_def elim!: litE)

lemma ws_blockquote: "list_all isWhiteSpace s \<Longrightarrow> m_blockquote prev s = Some r \<Longrightarrow> False"
  by (auto simp: m_blockquote_def split: if_splits elim!: greedyE litE)

lemma ws_pipe: "list_all isWhiteSpace s \<Longrightarrow> m_pipe prev s = Some r \<Longrightarrow> False"
  by (auto simp: m_pipe_def elim!: litE)

lemma ws_rule_of: "rule_of a s = Some r \<Longrightarrow> list_all isWhiteSpace s \<Longrightarrow> \<not> isWhiteSpace (cu a) \<Longrightarrow> False"
  by (auto simp: rule_of_def elim!: litE)

lemma ws_hr: "list_all isWhiteSpace s \<Longrightarrow> m_hr prev s = Some r \<Longrightarrow> False"
  by (auto simp: m_hr_def split: if_splits elim!: greedyE altE dest: ws_rule_of)

lemma ws_escape: "list_all isWhiteSpace s \<Longrightarrow> m_escape prev s = Some r \<Longrightarrow> False"
  by (auto simp: m_escape_def elim!: litE)

lemma ws_unordered: "list_all isWhiteSpace s \<Longrightarrow> m_unordered prev s = Some r \<Longrightarrow> False"
  by (auto simp: m_unordered_def isBullet_def split: if_splits elim!: greedyE oneE)

lemma ws_ordered: "list_all isWhiteSpace s \<Longrightarrow> m_ordered prev s = Some r \<Longrightarrow> False"
  by (auto simp: m_ordered_def split: if_splits elim!: greedyE plus1E dest: ws_not_digit)

lemma ws_spaces:
  "list_all isWhiteSpace s \<Longrightarrow> m_spaces prev s = Some (rep, rest) \<Longrightarrow>
   list_all isWhiteSpace rep \<and> list_all isWhiteSpace rest"
  by (auto simp: m_spaces_def elim!: litE greedyE)

lemma ws_newlines:
  "list_all isWhiteSpace s \<Longrightarrow> m_newlines prev s = Some (rep, rest) \<Longrightarrow>
   list_all isWhiteSpace rep \<and> list_all isWhiteSpace rest"
  by (auto simp: m_newlines_def elim!: litE greedyE)

lemma cleaned_replace_simps [simp]:
  "cleaned_var (cleaned_replace m \<sigma>) = replaceAll m None (cleaned_var \<sigma>)"
  "text_var (cleaned_replace m \<sigma>) = text_var \<sigma>"
  by (simp_all add: cleaned_replace_def)

lemma declare_cleaned_simps [simp]:
  "cleaned_var (declare_cleaned \<sigma>) = text_var \<sigma>"
  "text_var (declare_cleaned \<sigma>) = text_var \<sigma>"
  by (simp_all add: declare_cleaned_def)

lemma whitespace_keeping_replace:
  "whitespace_keeping m \<Longrightarrow> list_all isWhiteSpace s \<Longrightarrow> list_all isWhiteSpace (replaceAll m prev s)"
proof -
  assume wk: "whitespace_keeping m" and s: "list_all isWhiteSpace s"
  have "list_all isWhiteSpace rep \<and> list_all isWhiteSpace rest"
    if "list_all isWhiteSpace t" "m prev t = Some (rep, rest)" for prev t rep rest
    using wk that unfolding whitespace_keeping_def by blast
  from replaceAll_preserves[of isWhiteSpace m s prev, OF this s] show ?thesis .
qed

lemma wk_heading: "whitespace_keeping m_heading"
  unfolding whitespace_keeping_def using ws_heading by blast

lemma wk_strong: "whitespace_keeping m_strong"
  unfolding whitespace_keeping_def using ws_strong by blast

lemma wk_weak: "whitespace_keeping m_weak"
  unfolding whitespace_keeping_def using ws_weak by blast

lemma wk_link: "whitespace_keeping m_link"
  unfolding whitespace_keeping_def using ws_link by blast

lemma wk_image: "whitespace_keeping m_image"
  unfolding whitespace_keeping_def using ws_image by blast

lemma wk_inline_code: "whitespace_keeping m_inline_code"
  unfolding whitespace_keeping_def using ws_inline_code by blast

lemma wk_fenced: "whitespace_keeping m_fenced"
  unfolding whitespace_keeping_def using ws_fenced by blast

lemma wk_blockquote: "whitespace_keeping m_blockquote"
  unfolding whitespace_keeping_def using ws_blockquote by blast

lemma wk_pipe: "whitespace_keeping m_pipe"
  unfolding whitespace_keeping_def using ws_pipe by blast

lemma wk_spaces: "whitespace_keeping m_spaces"
  unfolding whitespace_keeping_def using ws_spaces by blast

lemma wk_hr: "whitespace_keeping m_hr"
  unfolding whitespace_keeping_def using ws_hr by blast

lemma wk_escape: "whitespace_keeping m_escape"
  unfolding whitespace_keeping_def using ws_escape by blast

lemma wk_unordered: "whitespace_keeping m_unordered"
  unfolding whitespace_keeping_def using ws_unordered by blast

lemma wk_ordered: "whitespace_keeping m_ordered"
  unfolding whitespace_keeping_def using ws_ordered by blast

lemma wk_newlines: "whitespace_keeping m_newlines"
  unfolding whitespace_keeping_def using ws_newlines by blast

lemmas whitespace_keeping_patterns =
  wk_heading wk_strong wk_weak wk_link wk_image wk_inline_code wk_fenced wk_blockquote wk_pipe wk_spaces wk_hr wk_escape wk_unordered wk_ordered wk_newlines

lemma body_whitespace:
  assumes "list_all isWhiteSpace (text_var \<sigma>)"
  shows "list_all isWhiteSpace (cleaned_var (exec markdownToHuman_body \<sigma>))"
  unfolding markdownToHuman_body_def exec.simps cleaned_replace_simps declare_cleaned_simps
  by (intro whitespace_keeping_replace whitespace_keeping_patterns assms)

lemma whitespace_only_empty:
  assumes "list_all isWhiteSpace s"
  shows "markdownToHuman s = []"
  using body_whitespace[of "\<lparr>text_var = s, cleaned_var = []\<rparr>"] assms
  by (simp add: markdownToHuman_def markdownToHuman_call_def Let_def trim_ws)

section \<open>The loop of \<open>replace\<close> returns what \<open>replaceAll\<close> computes\<close>

lemma replace_loop_past_end:
  "r < length h \<Longrightarrow> length S < h ! r \<Longrightarrow>
   replace_loop m S r acc n h = Some (acc @ drop n S, h[r := 0])"
  by (subst replace_loop.simps) simp

lemma replace_loop_no_match:
  "r < length h \<Longrightarrow> h ! r = i \<Longrightarrow> i \<le> length S \<Longrightarrow> m (prev_at S i) (drop i S) = None \<Longrightarrow>
   replace_loop m S r acc n h = replace_loop m S r acc n (h[r := i + 1])"
  by (subst replace_loop.simps) (simp add: match_at_def)

lemma replace_loop_match:
  "r < length h \<Longrightarrow> h ! r = i \<Longrightarrow> i \<le> length S \<Longrightarrow>
   m (prev_at S i) (drop i S) = Some (rep, rest) \<Longrightarrow> i < length S - length rest \<Longrightarrow>
   replace_loop m S r acc n h =
   replace_loop m S r (acc @ take (i - n) (drop n S) @ rep) (length S - length rest)
     (h[r := length S - length rest])"
  by (subst replace_loop.simps) (simp add: match_at_def)

lemma replace_loop_empty_match:
  "r < length h \<Longrightarrow> h ! r = i \<Longrightarrow> i \<le> length S \<Longrightarrow>
   m (prev_at S i) (drop i S) = Some (rep, rest) \<Longrightarrow> \<not> i < length S - length rest \<Longrightarrow>
   replace_loop m S r acc n h =
   replace_loop m S r (acc @ take (i - n) (drop n S) @ rep) i (h[r := i + 1])"
  by (subst replace_loop.simps) (simp add: match_at_def)

lemma take_Suc_drop:
  "n \<le> i \<Longrightarrow> i < length S \<Longrightarrow> take (Suc i - n) (drop n S) = take (i - n) (drop n S) @ [S ! i]"
proof -
  assume a: "n \<le> i" "i < length S"
  then have "i - n < length (drop n S)" by simp
  then have "take (Suc (i - n)) (drop n S) = take (i - n) (drop n S) @ [drop n S ! (i - n)]"
    by (rule take_Suc_conv_app_nth)
  with a show ?thesis by (simp add: Suc_diff_le)
qed

lemma replace_loop_refines:
  assumes wb: "suffix_matcher m"
  shows "r < length h \<Longrightarrow> h ! r = i \<Longrightarrow> n \<le> i \<Longrightarrow> i \<le> length S \<Longrightarrow>
    replace_loop m S r acc n h =
    Some (acc @ take (i - n) (drop n S) @ replaceAll m (prev_at S i) (drop i S), h[r := 0])"
proof (induction "length S - i" arbitrary: i acc n h rule: less_induct)
  case less
  note r = \<open>r < length h\<close> and hi = \<open>h ! r = i\<close> and ni = \<open>n \<le> i\<close> and iS = \<open>i \<le> length S\<close>
  show ?case
  proof (cases "m (prev_at S i) (drop i S)")
    case None
    have step: "replace_loop m S r acc n h = replace_loop m S r acc n (h[r := i + 1])"
      using replace_loop_no_match[where m=m and S=S and i=i and h=h and r=r] r hi iS None by simp
    show ?thesis
    proof (cases "i = length S")
      case True
      with None have "replaceAll m (prev_at S i) (drop i S) = []"
        by (simp add: replaceAll_None_Nil)
      moreover have "replace_loop m S r acc n (h[r := i + 1]) = Some (acc @ drop n S, h[r := 0])"
        using replace_loop_past_end[of r "h[r := i + 1]" S m acc n] r True by simp
      ultimately show ?thesis using step True by simp
    next
      case False
      with iS have lt: "i < length S" by simp
      then have d: "drop i S = S ! i # drop (Suc i) S" by (simp add: Cons_nth_drop_Suc)
      from None d have ra: "replaceAll m (prev_at S i) (drop i S) =
          S ! i # replaceAll m (Some (S ! i)) (drop (Suc i) S)"
        by (simp add: replaceAll_None_Cons)
      have "replace_loop m S r acc n (h[r := i + 1]) =
        Some (acc @ take (Suc i - n) (drop n S) @
              replaceAll m (prev_at S (Suc i)) (drop (Suc i) S), (h[r := i + 1])[r := 0])"
      proof -
        have "length S - Suc i < length S - i" using lt by arith
        from less.hyps[OF this, of "h[r := i + 1]" n acc] r lt ni
        show ?thesis by simp
      qed
      with step ra ni lt show ?thesis
        by (simp add: take_Suc_drop prev_at_def)
    qed
  next
    case (Some x)
    obtain rep rest where x: "x = (rep, rest)" by (cases x)
    with Some have mm: "m (prev_at S i) (drop i S) = Some (rep, rest)" by simp
    with wb have "suffix rest (drop i S)" unfolding suffix_matcher_def by blast
    then obtain pre where pre: "drop i S = pre @ rest" unfolding suffix_def by blast
    then have len: "length S - i = length pre + length rest"
      by (metis length_append length_drop)
    define e where "e = length S - length rest"
    from len iS have e: "e = i + length pre" "e \<le> length S" unfolding e_def by simp_all
    have rest: "rest = drop e S"
    proof -
      have "drop (length pre) (drop i S) = rest" using pre by simp
      then show ?thesis using e by (simp add: add.commute)
    qed
    show ?thesis
    proof (cases "pre = []")
      case False
      then have ie: "i < e" using e by simp
      have step: "replace_loop m S r acc n h =
          replace_loop m S r (acc @ take (i - n) (drop n S) @ rep) e (h[r := e])"
        using replace_loop_match[where m=m and S=S and i=i and h=h and r=r and rep=rep and rest=rest] r hi iS mm ie unfolding e_def by simp
      have "replace_loop m S r (acc @ take (i - n) (drop n S) @ rep) e (h[r := e]) =
        Some ((acc @ take (i - n) (drop n S) @ rep) @ take (e - e) (drop e S) @
              replaceAll m (prev_at S e) (drop e S), (h[r := e])[r := 0])"
      proof -
        have "length S - e < length S - i" using ie e by arith
        from less.hyps[OF this, of "h[r := e]" e "acc @ take (i - n) (drop n S) @ rep"] r e
        show ?thesis by simp
      qed
      moreover have "last pre = S ! (e - 1)"
      proof -
        have S: "S = take i S @ pre @ rest" using pre by (metis append_take_drop_id)
        have "S ! (e - 1) = (take i S @ pre @ rest) ! (i + (length pre - 1))"
          using S e False by (simp add: Suc_leI)
        also have "\<dots> = (pre @ rest) ! (length pre - 1)"
          using iS by (simp add: nth_append)
        also have "\<dots> = pre ! (length pre - 1)" using False by (simp add: nth_append)
        also have "\<dots> = last pre" using False by (simp add: last_conv_nth)
        finally show ?thesis by simp
      qed
      moreover have "replaceAll m (prev_at S i) (drop i S) =
          rep @ replaceAll m (Some (last (take (length (drop i S) - length rest) (drop i S)))) rest"
        using mm pre False
        by (intro replaceAll_Some_shorter[where m=m and prev="prev_at S i" and s="drop i S"]) simp_all
      moreover have "take (length (drop i S) - length rest) (drop i S) = pre"
        using pre by simp
      moreover have "prev_at S e = Some (S ! (e - 1))" using ie by (simp add: prev_at_def)
      ultimately show ?thesis using step rest by simp
    next
      case True
      with pre e have re: "rest = drop i S" "e = i" by simp_all
      have step: "replace_loop m S r acc n h =
          replace_loop m S r (acc @ take (i - n) (drop n S) @ rep) i (h[r := i + 1])"
        using replace_loop_empty_match[where m=m and S=S and i=i and h=h and r=r and rep=rep and rest=rest] r hi iS mm re e_def by simp
      show ?thesis
      proof (cases "i = length S")
        case True
        with mm have "replaceAll m (prev_at S i) (drop i S) = rep"
          by (simp add: replaceAll_Some_Nil)
        moreover have "replace_loop m S r (acc @ take (i - n) (drop n S) @ rep) i (h[r := i + 1]) =
            Some ((acc @ take (i - n) (drop n S) @ rep) @ drop i S, h[r := 0])"
          using replace_loop_past_end[of r "h[r := i + 1]" S m _ i] r True by simp
        ultimately show ?thesis using step True by simp
      next
        case False
        with iS have lt: "i < length S" by simp
        then have d: "drop i S = S ! i # drop (Suc i) S" by (simp add: Cons_nth_drop_Suc)
        from mm d re have ra: "replaceAll m (prev_at S i) (drop i S) =
            rep @ S ! i # replaceAll m (Some (S ! i)) (drop (Suc i) S)"
          using replaceAll_Some_empty[where m=m and prev="prev_at S i" and c="S ! i"
              and cs="drop (Suc i) S" and rep=rep and rest=rest]
          by simp
        have "replace_loop m S r (acc @ take (i - n) (drop n S) @ rep) i (h[r := i + 1]) =
          Some ((acc @ take (i - n) (drop n S) @ rep) @ take (Suc i - i) (drop i S) @
                replaceAll m (prev_at S (Suc i)) (drop (Suc i) S), (h[r := i + 1])[r := 0])"
        proof -
          have "length S - Suc i < length S - i" using lt by arith
          from less.hyps[OF this, of "h[r := i + 1]" i "acc @ take (i - n) (drop n S) @ rep"] r lt
          show ?thesis by simp
        qed
        with step ra lt d show ?thesis
          by (simp add: prev_at_def)
      qed
    qed
  qed
qed

lemma suffix_heading: "suffix_matcher m_heading"
  unfolding suffix_matcher_def
  by (auto simp: m_heading_def suffix_def split: if_splits elim!: greedyE plus1E)

lemma suffix_emphasis: "emphasis d s = Some (rep, rest) \<Longrightarrow> suffix rest s"
  by (auto simp: emphasis_def suffix_def elim!: litE lazyE)

lemma suffix_strong: "suffix_matcher m_strong"
  unfolding suffix_matcher_def
  by (auto simp: m_strong_def elim!: altE dest: suffix_emphasis)

lemma suffix_weak: "suffix_matcher m_weak"
  unfolding suffix_matcher_def
  by (auto simp: m_weak_def elim!: altE dest: suffix_emphasis)

lemma suffix_link: "suffix_matcher m_link"
  unfolding suffix_matcher_def
  by (auto simp: m_link_def suffix_def elim!: litE lazyE)

lemma suffix_image: "suffix_matcher m_image"
  unfolding suffix_matcher_def
  by (auto simp: m_image_def suffix_def elim!: litE lazyE)

lemma suffix_inline_code: "suffix_matcher m_inline_code"
  unfolding suffix_matcher_def
  by (auto simp: m_inline_code_def suffix_def elim!: litE greedyE)

lemma suffix_fenced: "suffix_matcher m_fenced"
  unfolding suffix_matcher_def
  by (auto simp: m_fenced_def suffix_def elim!: litE lazyE)

lemma suffix_blockquote: "suffix_matcher m_blockquote"
  unfolding suffix_matcher_def
  by (auto simp: m_blockquote_def suffix_def split: if_splits elim!: greedyE litE optE)

lemma suffix_pipe: "suffix_matcher m_pipe"
  unfolding suffix_matcher_def
  by (auto simp: m_pipe_def suffix_def elim!: litE greedyE)

lemma suffix_spaces: "suffix_matcher m_spaces"
  unfolding suffix_matcher_def
  by (auto simp: m_spaces_def suffix_def elim!: litE greedyE)

lemma suffix_rule_of: "rule_of a s = Some (rep, rest) \<Longrightarrow> suffix rest s"
  by (auto simp: rule_of_def suffix_def elim!: litE greedyE eolE)

lemma suffix_hr: "suffix_matcher m_hr"
  unfolding suffix_matcher_def
  by (auto simp: m_hr_def split: if_splits elim!: greedyE altE dest!: suffix_rule_of
      intro: suffix_appendI)

lemma suffix_escape: "suffix_matcher m_escape"
  unfolding suffix_matcher_def
  by (auto simp: m_escape_def suffix_def elim!: litE oneE)

lemma suffix_unordered: "suffix_matcher m_unordered"
  unfolding suffix_matcher_def
  by (auto simp: m_unordered_def suffix_def split: if_splits elim!: greedyE oneE plus1E)

lemma suffix_ordered: "suffix_matcher m_ordered"
  unfolding suffix_matcher_def
  by (auto simp: m_ordered_def suffix_def split: if_splits elim!: greedyE litE plus1E)

lemma suffix_newlines: "suffix_matcher m_newlines"
  unfolding suffix_matcher_def
  by (auto simp: m_newlines_def suffix_def elim!: litE greedyE)

lemma String_replace_eq:
  assumes "suffix_matcher m"
  shows "String_replace m S h = Some (replaceAll m None S, h @ [0])"
proof -
  have "replace_loop m S (length h) [] 0 (h @ [0]) =
        Some ([] @ take (0 - 0) (drop 0 S) @ replaceAll m (prev_at S 0) (drop 0 S),
              (h @ [0])[length h := 0])"
    by (rule replace_loop_refines[OF assms]) simp_all
  then show ?thesis
    by (simp add: String_replace_def new_RegExp_def prev_at_def)
qed

lemma run_statements_eq:
  "list_all suffix_matcher ms \<Longrightarrow>
   run_statements ms cleaned h =
   Some (fold (\<lambda>m c. replaceAll m None c) ms cleaned, h @ replicate (length ms) 0)"
proof (induction ms arbitrary: cleaned h)
  case Nil
  then show ?case by simp
next
  case (Cons m ms)
  then show ?case
    by (simp add: String_replace_eq replicate_app_Cons_same)
qed

lemma suffix_patterns: "list_all suffix_matcher markdownToHuman_patterns"
  by (simp add: markdownToHuman_patterns_def suffix_heading suffix_strong suffix_weak suffix_link
      suffix_image suffix_inline_code suffix_fenced suffix_blockquote suffix_pipe suffix_spaces
      suffix_hr suffix_escape suffix_unordered suffix_ordered suffix_newlines)

lemma markdownToHuman_fold:
  "markdownToHuman s =
   (if s = [] then [] else trim (fold (\<lambda>m c. replaceAll m None c) markdownToHuman_patterns s))"
  by (simp add: markdownToHuman_def markdownToHuman_call_def Let_def markdownToHuman_body_def
      markdownToHuman_patterns_def)

lemma markdownToHuman_run_eq:
  "markdownToHuman_run h s =
   Some (markdownToHuman s, if s = [] then h else h @ replicate (length markdownToHuman_patterns) 0)"
  by (simp add: markdownToHuman_run_def run_statements_eq[OF suffix_patterns] markdownToHuman_fold)

section \<open>Rounding to doubles\<close>

lemma fl_0 [simp]: "fl 0 = 0"
  by (simp add: fl_def)

lemma Math_round_0 [simp]: "Math_round 0 = 0"
  by code_simp

lemma pow2_powi: "pow2 e = 2 powi e"
  by (simp add: pow2_def power_int_def power_inverse inverse_eq_divide divide_simps)

lemma pow2_pos: "0 < pow2 e"
  by (simp add: pow2_powi)

lemma pow2_add: "pow2 (a + b) = pow2 a * pow2 b"
  by (simp add: pow2_powi power_int_add)

lemma exponent_of_le:
  assumes "0 < x"
  shows "pow2 (exponent_of x) \<le> x"
proof -
  obtain p q where pq: "quotient_of x = (p, q)" by (cases "quotient_of x")
  then have q: "0 < q" by (rule quotient_of_denom_pos)
  from pq have x: "x = of_int p / of_int q" by (rule quotient_of_div)
  with assms q have p: "0 < p" by (simp add: zero_less_divide_iff)
  define n where "n = bitlen p - bitlen q"
  show ?thesis
  proof (cases "pow2 n \<le> x")
    case True
    with pq show ?thesis by (simp add: exponent_of_def n_def Let_def)
  next
    case False
    with pq have e: "exponent_of x = n - 1" by (simp add: exponent_of_def n_def Let_def)
    from bitlen_bounds[OF p] have lo: "2 ^ nat (bitlen p - 1) \<le> p" by simp
    from bitlen_bounds[OF q] have hi: "q < 2 ^ nat (bitlen q)" by simp
    have bp: "1 \<le> bitlen p" using p by (auto simp: bitlen_alt_def)
    have bq: "0 \<le> bitlen q" by (rule bitlen_nonneg)
    have "pow2 (n - 1) = 2 powi (bitlen p - 1 - bitlen q)"
      by (simp add: pow2_powi n_def algebra_simps)
    also have "\<dots> = 2 powi (bitlen p - 1) / 2 powi (bitlen q)"
      by (rule power_int_diff) simp
    also have "\<dots> = 2 ^ nat (bitlen p - 1) / 2 ^ nat (bitlen q)"
      using bp bq by (simp add: power_int_def)
    also have "\<dots> \<le> of_int p / of_int q"
    proof -
      from lo have "of_int (2 ^ nat (bitlen p - 1)) \<le> (of_int p :: rat)"
        by (simp only: of_int_le_iff)
      then have lo': "(2::rat) ^ nat (bitlen p - 1) \<le> of_int p" by simp
      from hi have "q \<le> 2 ^ nat (bitlen q)" by simp
      then have "(of_int q :: rat) \<le> of_int (2 ^ nat (bitlen q))"
        by (simp only: of_int_le_iff)
      then have hi': "(of_int q :: rat) \<le> 2 ^ nat (bitlen q)" by simp
      have q': "(0::rat) < of_int q" using q by simp
      have z: "(0::rat) \<le> of_int p" using p by simp
      from z lo' q' hi' show ?thesis by (rule frac_le)
    qed
    finally show ?thesis using e x by simp
  qed
qed

lemma round_ties_even_err: "\<bar>of_int (round_ties_even y) - y\<bar> \<le> 1 / 2"
proof -
  have "of_int \<lfloor>y\<rfloor> \<le> y" "y < of_int \<lfloor>y\<rfloor> + 1" by linarith+
  then show ?thesis
    by (auto simp: round_ties_even_def Let_def)
qed

lemma fl_err: "\<bar>fl x - x\<bar> \<le> \<bar>x\<bar> / 2 ^ 53"
proof (cases "x = 0")
  case True
  then show ?thesis by (simp add: fl_def)
next
  case False
  define e where "e = exponent_of \<bar>x\<bar> - 52"
  define P where "P = pow2 e"
  define y where "y = x / P"
  have P: "0 < P" unfolding P_def by (rule pow2_pos)
  from False have fl: "fl x = of_int (round_ties_even y) * P"
    by (simp add: fl_def Let_def e_def P_def y_def)
  have "fl x - x = (of_int (round_ties_even y) - y) * P"
    using P by (simp add: fl y_def algebra_simps)
  then have "\<bar>fl x - x\<bar> = \<bar>of_int (round_ties_even y) - y\<bar> * P"
    using P by (simp add: abs_mult)
  also have "\<dots> \<le> 1 / 2 * P"
    using round_ties_even_err[of y] P by (intro mult_right_mono) simp_all
  finally have a: "\<bar>fl x - x\<bar> \<le> P / 2" by simp
  from False have "pow2 (exponent_of \<bar>x\<bar>) \<le> \<bar>x\<bar>" by (intro exponent_of_le) simp
  moreover have "pow2 (exponent_of \<bar>x\<bar>) = P * 2 ^ 52"
  proof -
    have "exponent_of \<bar>x\<bar> = e + 52" by (simp add: e_def)
    moreover have "pow2 52 = 2 ^ 52" by (simp add: pow2_def)
    ultimately show ?thesis by (simp add: pow2_add P_def)
  qed
  ultimately have "P * 2 ^ 52 \<le> \<bar>x\<bar>" by simp
  with a show ?thesis by simp
qed

lemma scaled_percent_err:
  "\<bar>fmul (fmul (fl q) 100) 10 - q * 100 * 10\<bar> \<le> \<bar>q * 100 * 10\<bar> / 2 ^ 51"
proof -
  define a where "a = fl q"
  define b where "b = fl (a * 100)"
  define x where "x = fl (b * 10)"
  define Q where "Q = \<bar>q\<bar>"
  define A where "A = \<bar>a\<bar>"
  define B where "B = \<bar>b\<bar>"
  have ea: "\<bar>a - q\<bar> \<le> Q / 9007199254740992"
    using fl_err[of q] by (simp add: a_def Q_def)
  have eb: "\<bar>b - a * 100\<bar> \<le> A * 100 / 9007199254740992"
    using fl_err[of "a * 100"] by (simp add: b_def A_def abs_mult)
  have ex: "\<bar>x - b * 10\<bar> \<le> B * 10 / 9007199254740992"
    using fl_err[of "b * 10"] by (simp add: x_def B_def abs_mult)
  have Q: "0 \<le> Q" by (simp add: Q_def)
  have a1: "A \<le> Q + Q / 9007199254740992"
    using ea unfolding A_def Q_def by linarith
  have b1: "\<bar>b - q * 100\<bar> \<le> A * 100 / 9007199254740992 + Q * 100 / 9007199254740992"
    using ea eb by linarith
  have b2: "B \<le> Q * 100 + \<bar>b - q * 100\<bar>"
    unfolding B_def Q_def by linarith
  have split: "x - q * 1000 = (x - b * 10) + (b - q * 100) * 10"
    by (simp add: algebra_simps)
  have ten: "\<bar>(b - q * 100) * 10\<bar> = \<bar>b - q * 100\<bar> * 10"
    unfolding abs_mult by simp
  have "\<bar>(x - b * 10) + (b - q * 100) * 10\<bar> \<le> \<bar>x - b * 10\<bar> + \<bar>(b - q * 100) * 10\<bar>"
    by (rule abs_triangle_ineq)
  then have x1: "\<bar>x - q * 1000\<bar> \<le> B * 10 / 9007199254740992 + \<bar>b - q * 100\<bar> * 10"
    unfolding ten split[symmetric] using ex by linarith
  define D where "D = \<bar>b - q * 100\<bar>"
  define X where "X = \<bar>x - q * 1000\<bar>"
  note a1
  moreover from b1 have "D \<le> A * 100 / 9007199254740992 + Q * 100 / 9007199254740992"
    by (simp only: D_def)
  moreover from b2 have "B \<le> Q * 100 + D" by (simp only: D_def)
  moreover from x1 have "X \<le> B * 10 / 9007199254740992 + D * 10" by (simp only: D_def X_def)
  ultimately have "X \<le> Q * 1000 / 2251799813685248"
    using Q by linarith
  then show ?thesis
    by (simp add: X_def x_def b_def a_def fmul_def Q_def abs_mult mult.commute[of q 1000])
qed

lemma Math_round_err: "\<bar>of_int (Math_round x) - x\<bar> \<le> 1 / 2"
  unfolding Math_round_def by linarith

lemma reduction_scaled:
  assumes "0 < o_len"
  shows "\<bar>fmul (reduction o_len c_len) 10 - exact_percent o_len c_len * 10\<bar> \<le>
         \<bar>exact_percent o_len c_len * 10\<bar> / 2 ^ 51"
proof -
  from assms have r: "reduction o_len c_len =
      fmul (fl (of_int (int o_len - int c_len) / of_nat o_len)) 100"
    by (simp add: reduction_def fdiv_def)
  show ?thesis unfolding r exact_percent_def by (rule scaled_percent_err)
qed

section \<open>The model on inputs where code and specification agree\<close>

text \<open>The worked examples of the specification for headings, emphasis, links, lists,
  horizontal rules, blank lines and tables, which the code meets.\<close>

lemma example_heading:
  "markdownToHuman (str ''# Title\<newline>\<newline>Body'') = str ''Title\<newline>\<newline>Body''"
  by code_simp

lemma example_emphasis:
  "markdownToHuman (str ''**bold** and *italic*'') = str ''bold and italic''"
  by code_simp

lemma example_link:
  "markdownToHuman (str ''[Docs](https://example.com)'') = str ''Docs (https://example.com)''"
  by code_simp

lemma example_lists:
  "markdownToHuman (str ''- item one\<newline>- item two'') = str ''item one\<newline>item two''"
  "markdownToHuman (str ''1. first\<newline>2. second'') = str ''first\<newline>second''"
  by code_simp+

lemma example_rule:
  "markdownToHuman (str ''above\<newline>---\<newline>below'') = str ''above\<newline>\<newline>below''"
  by code_simp

lemma example_blank_lines:
  "markdownToHuman (str ''a\<newline>\<newline>\<newline>\<newline>b'') = str ''a\<newline>\<newline>b''"
  by code_simp

lemma example_table:
  "markdownToHuman (str ''| A | B |'') = str ''A B''"
  by code_simp

text \<open>A call step by step, on a heap that holds two objects already.\<close>

lemma example_run:
  "markdownToHuman_run [3, 7] (str ''# [a](b)'') =
   Some (str ''a (b)'', [3, 7, 0, 0, 0, 0, 0, 0, 0, 0, 0, 0, 0, 0, 0, 0, 0])"
  by code_simp

text \<open>The loop reads \<open>lastIndex\<close>: started on an object whose \<open>lastIndex\<close> is 3, the search
  for two spaces in \<^verbatim>\<open>a  b\<close> begins after them and replaces nothing. \<open>replace\<close> sets
  \<open>lastIndex\<close> to 0 before the loop.\<close>

lemma example_stale_lastIndex:
  "replace_loop m_spaces (str ''a  b'') 0 [] 0 [3] = Some (str ''a  b'', [0])"
  "replace_loop m_spaces (str ''a  b'') 0 [] 0 [0] = Some (str ''a b'', [0])"
  by code_simp+

text \<open>The double nearest to one tenth, and a value that needs no rounding.\<close>

lemma fl_tenth: "fl (1 / 10) = 3602879701896397 / 36028797018963968"
  by code_simp

lemma fl_exact: "fl (- 375 / 2) = - 375 / 2"
  by code_simp

section \<open>The claims\<close>

subsection \<open>Worked examples\<close>

text \<open>
  C1. The specification gives \<^verbatim>\<open>npm start\<close> as the result for a fenced block with the
  language tag \<^verbatim>\<open>bash\<close>. The pattern for inline code runs before the pattern for
  fenced blocks and matches across the line breaks: it takes the first two backticks of
  the opening fence as an empty code span, then the third backtick up to the first
  backtick of the closing fence as a code span. No fence is left for the pattern that
  would drop the line with the language tag, and the tag stays.
\<close>

theorem fenced_example_keeps_language_tag:
  "markdownToHuman (str ''```bash\<newline>npm start\<newline>```'') = str ''bash\<newline>npm start''"
  by code_simp

text \<open>
  C2. The specification gives \<^verbatim>\<open>alt\<close> as the result for \<^verbatim>\<open>![alt](img.png)\<close>. The
  pattern for links runs before the pattern for images and matches the part after the
  exclamation mark, so the mark and the target stay.
\<close>

theorem image_example_keeps_marker_and_target:
  "markdownToHuman (str ''![alt](img.png)'') = str ''!alt (img.png)''"
  by code_simp

text \<open>
  C3. The specification gives \<^verbatim>\<open>*not italic*\<close> as the result for the two escaped
  asterisks around \<^verbatim>\<open>not italic\<close>. The pattern for weak emphasis runs before the pattern
  for escapes and does not look at backslashes: it takes the two asterisks as a pair and
  drops them. The first backslash then escapes the letter \<^verbatim>\<open>n\<close>, the second one is left
  at the end.
\<close>

theorem escape_example_loses_asterisks:
  "markdownToHuman (str ([CHR 0x5C] @ ''*not italic'' @ [CHR 0x5C] @ ''*'')) =
   str (''not italic'' @ [CHR 0x5C])"
  by code_simp

subsection \<open>The order of the link pass and the image pass\<close>


subsection \<open>Totality, purity and input of white space\<close>

text \<open>
  C5. A call of \<open>markdownToHuman\<close> returns a string, for every input string and every
  heap: each of the fifteen searches ends. The body has no statement that throws, and
  \<open>replace\<close> and \<open>trim\<close> do not throw on strings.
\<close>

theorem markdownToHuman_returns:
  "\<exists>out h'. markdownToHuman_run h s = Some (out, h')"
  by (simp add: markdownToHuman_run_eq)

text \<open>
  C8. The string that a call returns is determined by the input string alone: whatever
  the heap holds when the call starts, the call returns the same string, and it leaves
  every object that was on the heap as it was. A string is a value, not an object: there
  is nothing of the input that the call could change.
\<close>

theorem markdownToHuman_deterministic:
  "\<exists>out. \<forall>h. \<exists>h'. markdownToHuman_run h s = Some (out, h') \<and> take (length h) h' = h"
  by (rule exI[of _ "markdownToHuman s"]) (simp add: markdownToHuman_run_eq)

text \<open>
  C10. On an input of spaces, tabs and newlines only, the empty input included,
  \<open>markdownToHuman\<close> returns the empty string.
\<close>

theorem markdownToHuman_whitespace:
  "\<forall>c\<in>set s. c = cu CHR '' '' \<or> c = cu (CHR 0x09) \<or> c = cu (CHR 0x0A) \<Longrightarrow>
   markdownToHuman s = []"
proof -
  assume "\<forall>c\<in>set s. c = cu CHR '' '' \<or> c = cu (CHR 0x09) \<or> c = cu (CHR 0x0A)"
  then have "list_all isWhiteSpace s" by (auto simp: list_all_iff)
  then show ?thesis by (rule whitespace_only_empty)
qed

text \<open>C10, on a space, a tab, a newline and a space.\<close>

theorem markdownToHuman_whitespace_witness:
  "set (str [CHR '' '', CHR 0x09, CHR 0x0A, CHR '' '']) \<subseteq>
     {cu CHR '' '', cu (CHR 0x09), cu (CHR 0x0A)} \<and>
   markdownToHuman (str [CHR '' '', CHR 0x09, CHR 0x0A, CHR '' '']) = []"
  using markdownToHuman_whitespace[of "str [CHR '' '', CHR 0x09, CHR 0x0A, CHR '' '']"] by simp

subsection \<open>Statistics\<close>

text \<open>
  C6. For the same string as original and as cleaned text, the reduction is 0 percent and
  both lengths are the length of the string.
\<close>

theorem getStats_same_text:
  "reductionPercent (getStats s s) = 0 \<and>
   originalChars (getStats s s) = length s \<and> cleanedChars (getStats s s) = length s"
  by (simp add: getStats_def reduction_def fdiv_def fmul_def)

text \<open>C7. For the empty string as original, the reduction is 0 percent, whatever the
  cleaned text is: nothing is divided by the length 0.\<close>

theorem getStats_empty_original:
  "reductionPercent (getStats [] c) = 0"
  by (simp add: getStats_def reduction_def fdiv_def fmul_def)

text \<open>
  C9, as stated: the reduction is the percentage rounded to one decimal place, half way
  cases going away from zero or to the even digit. For an original of 16 characters and a
  cleaned text of 19 the percentage is -18.75, which both modes round to -18.8; every
  step of the computation is exact there, \<open>Math.round\<close> takes -187.5 to -187, and the
  result is -18.7.
\<close>

theorem reductionPercent_negative_half:
  "reductionPercent (getStats (str ''0123456789abcdef'') (str ''0123456789abcdefghi'')) =
     fl (- 187 / 10) \<and>
   exact_percent 16 19 = - 75 / 4 \<and>
   percent_half_away 16 19 = - 188 / 10 \<and>
   percent_half_even 16 19 = - 188 / 10 \<and>
   fl (- 187 / 10) \<noteq> fl (- 188 / 10)"
  by code_simp

text \<open>
  The same at a positive half: for an original of 80 characters and a cleaned text of 29
  the percentage is 63.75, which both modes round to 63.8. The double nearest to 51 / 80
  is below it, ten times the percentage comes out as a double just below 637.5, and the
  result is 63.7.
\<close>

theorem reductionPercent_positive_half:
  "reductionPercent (getStats (replicate 80 (cu CHR ''a'')) (replicate 29 (cu CHR ''a''))) =
     fl (637 / 10) \<and>
   exact_percent 80 29 = 255 / 4 \<and>
   percent_half_away 80 29 = 638 / 10 \<and>
   percent_half_even 80 29 = 638 / 10 \<and>
   fl (637 / 10) \<noteq> fl (638 / 10)"
  by code_simp

text \<open>
  C9, amended: when the original is not empty, the reduction is the double nearest to
  \<open>k / 10\<close> for an integer \<open>k\<close> that is no farther from ten times the exact percentage
  than 1 / 2 plus the rounding error of the three operations on doubles, which is at most
  that value divided by \<open>2 ^ 51\<close>. So the reduction is the exact percentage rounded to one
  decimal place whenever the percentage is farther from a half than that error, where the
  two modes of the specification agree; on a half, or that near to one, the result may be
  either neighbour.
\<close>

theorem reductionPercent_rounding:
  "0 < length original \<Longrightarrow>
   (\<exists>k. reductionPercent (getStats original cleaned) = fl (of_int k / 10) \<and>
        \<bar>of_int k - exact_percent (length original) (length cleaned) * 10\<bar> \<le>
          1 / 2 + \<bar>exact_percent (length original) (length cleaned) * 10\<bar> / 2 ^ 51 \<and>
        (\<forall>n. \<bar>exact_percent (length original) (length cleaned) * 10 - of_int n\<bar> +
               \<bar>exact_percent (length original) (length cleaned) * 10\<bar> / 2 ^ 51 < 1 / 2
             \<longrightarrow> k = n))"
proof -
  assume pos: "0 < length original"
  define y where "y = exact_percent (length original) (length cleaned) * 10"
  define x where "x = fmul (reduction (length original) (length cleaned)) 10"
  define k where "k = Math_round x"
  have rp: "reductionPercent (getStats original cleaned) = fl (of_int k / 10)"
    by (simp add: getStats_def k_def x_def fdiv_def)
  have xy: "\<bar>x - y\<bar> \<le> \<bar>y\<bar> / 2 ^ 51"
    unfolding x_def y_def using pos by (rule reduction_scaled)
  have kx: "\<bar>of_int k - x\<bar> \<le> 1 / 2" unfolding k_def by (rule Math_round_err)
  from xy kx have ky: "\<bar>of_int k - y\<bar> \<le> 1 / 2 + \<bar>y\<bar> / 2 ^ 51" by linarith
  have "k = n" if "\<bar>y - of_int n\<bar> + \<bar>y\<bar> / 2 ^ 51 < 1 / 2" for n
  proof -
    from that ky have "\<bar>(of_int k :: rat) - of_int n\<bar> < 1" by linarith
    then have "\<bar>(of_int (k - n) :: rat)\<bar> < 1" by simp
    then have "\<bar>k - n\<bar> < 1" by (metis of_int_abs of_int_less_1_iff)
    then show ?thesis by simp
  qed
  with rp ky show ?thesis unfolding y_def by blast
qed

text \<open>C9, amended, on an original of 4 characters and a cleaned text of 3: the percentage
  is 25, far from a half, and the reduction is 25.\<close>

theorem reductionPercent_rounding_witness:
  "0 < length (str ''abcd'') \<and> reductionPercent (getStats (str ''abcd'') (str ''abc'')) = 25"
proof -
  have pos: "0 < length (str ''abcd'')" by simp
  have y: "exact_percent (length (str ''abcd'')) (length (str ''abc'')) * 10 = 250"
    by (simp add: exact_percent_def)
  from reductionPercent_rounding[OF pos, of "str ''abc''"] obtain k where
    rp: "reductionPercent (getStats (str ''abcd'') (str ''abc'')) = fl (of_int k / 10)" and
    det: "\<forall>n. \<bar>exact_percent (length (str ''abcd'')) (length (str ''abc'')) * 10 - of_int n\<bar> +
               \<bar>exact_percent (length (str ''abcd'')) (length (str ''abc'')) * 10\<bar> / 2 ^ 51 < 1 / 2
             \<longrightarrow> k = n"
    by blast
  from det[rule_format, of 250] have "k = 250" unfolding y by simp
  moreover have "fl 25 = 25" by code_simp
  ultimately show ?thesis using rp pos by simp
qed

end
